theory Spec2Isabelle
  imports Complex_Main
begin

section \<open>Python values shared by the modules\<close>

text \<open>
  The exceptions the two modules can raise.  An operation of a table returns a pair:
  what the call produced (\<open>Inr\<close> the returned value, \<open>Inl\<close> the exception raised) and
  the object as the call left it, so that the state after a raise is observable too.
\<close>

datatype error = ValueError | RuntimeError | ZeroDivisionError | IndexError

text \<open>Python's \<open>a % b\<close> on integers: floor-mod, raising on a zero divisor.\<close>

definition py_mod :: "int \<Rightarrow> int \<Rightarrow> error + int" where
  "py_mod a b = (if b = 0 then Inl ZeroDivisionError else Inr (a mod b))"

text \<open>
  Python's list subscript \<open>xs[i]\<close>: a negative index counts from the end, an index
  outside \<open>[-len, len)\<close> raises IndexError.  The result is the position in the list.
\<close>

definition py_index :: "int \<Rightarrow> nat \<Rightarrow> error + nat" where
  "py_index i n =
     (let j = (if i < 0 then int n + i else i)
      in if 0 \<le> j \<and> j < int n then Inr (nat j) else Inl IndexError)"

section \<open>hash\_functions.py\<close>

definition division_hash :: "int \<Rightarrow> int \<Rightarrow> error + int" where
  "division_hash key table_size = py_mod key table_size"

definition universal_hash :: "int \<Rightarrow> int \<Rightarrow> int \<Rightarrow> int \<Rightarrow> int \<Rightarrow> error + int" where
  "universal_hash key table_size a b p =
     (case py_mod (a * key + b) p of
        Inl e \<Rightarrow> Inl e
      | Inr r \<Rightarrow> py_mod r table_size)"

definition bad_hash_clustering :: "int \<Rightarrow> int \<Rightarrow> error + int" where
  "bad_hash_clustering key table_size = py_mod (key * table_size) table_size"

text \<open>
  The function objects of the module, as \<open>get_hash_function\<close> hands them out: one
  constructor per \<open>def\<close> of hash\_functions.py.
\<close>

datatype hash_function =
    DivisionHash
  | MultiplicationHash
  | UniversalHash
  | StringHashSimple
  | StringHashPolynomial
  | StringHashDjb2
  | Md5Hash
  | BadHashClustering

text \<open>The dict literal of \<open>get_hash_function\<close>, in the order it is written.\<close>

definition hash_functions :: "(string \<times> hash_function) list" where
  "hash_functions =
     [(''division'', DivisionHash),
      (''multiplication'', MultiplicationHash),
      (''string_simple'', StringHashSimple),
      (''string_polynomial'', StringHashPolynomial),
      (''string_djb2'', StringHashDjb2),
      (''md5'', Md5Hash),
      (''bad_clustering'', BadHashClustering)]"

text \<open>\<open>hash_functions.get(hash_type, division_hash)\<close>.\<close>

definition get_hash_function :: "string \<Rightarrow> hash_function" where
  "get_hash_function hash_type =
     (case map_of hash_functions hash_type of
        Some f \<Rightarrow> f
      | None \<Rightarrow> DivisionHash)"

section \<open>hash\_tables.py: DirectAddressTable\<close>

text \<open>
  \<open>table\<close> is a list of \<open>Optional[Any]\<close>: \<open>None\<close> is Python's \<open>None\<close>, which is
  also what an empty position holds.  A stored value is any Python object, \<open>None\<close>
  included, so \<open>insert\<close> takes an optional value.
\<close>

record 'v DirectAddressTable =
  dat_size :: int
  dat_table :: "'v option list"

definition dat_init :: "int \<Rightarrow> 'v DirectAddressTable" where
  "dat_init sz = \<lparr>dat_size = sz, dat_table = replicate (nat sz) None\<rparr>"

definition dat_insert ::
  "'v DirectAddressTable \<Rightarrow> int \<Rightarrow> 'v option \<Rightarrow> (error + unit) \<times> 'v DirectAddressTable" where
  "dat_insert t key value =
     (if \<not> (0 \<le> key \<and> key < dat_size t) then (Inl ValueError, t)
      else (case py_index key (length (dat_table t)) of
              Inl e \<Rightarrow> (Inl e, t)
            | Inr j \<Rightarrow> (Inr (), t\<lparr>dat_table := (dat_table t)[j := value]\<rparr>)))"

definition dat_search ::
  "'v DirectAddressTable \<Rightarrow> int \<Rightarrow> (error + 'v option) \<times> 'v DirectAddressTable" where
  "dat_search t key =
     (if \<not> (0 \<le> key \<and> key < dat_size t) then (Inr None, t)
      else (case py_index key (length (dat_table t)) of
              Inl e \<Rightarrow> (Inl e, t)
            | Inr j \<Rightarrow> (Inr (dat_table t ! j), t)))"

definition dat_delete ::
  "'v DirectAddressTable \<Rightarrow> int \<Rightarrow> (error + unit) \<times> 'v DirectAddressTable" where
  "dat_delete t key =
     (if 0 \<le> key \<and> key < dat_size t
      then (case py_index key (length (dat_table t)) of
              Inl e \<Rightarrow> (Inl e, t)
            | Inr j \<Rightarrow> (Inr (), t\<lparr>dat_table := (dat_table t)[j := None]\<rparr>))
      else (Inr (), t))"

text \<open>The tables a program can hold: built by the constructor, changed by the methods.\<close>

inductive dat_reachable :: "'v DirectAddressTable \<Rightarrow> bool" where
  dat_reach_init: "dat_reachable (dat_init sz)"
| dat_reach_insert: "dat_reachable t \<Longrightarrow> dat_reachable (snd (dat_insert t key value))"
| dat_reach_search: "dat_reachable t \<Longrightarrow> dat_reachable (snd (dat_search t key))"
| dat_reach_delete: "dat_reachable t \<Longrightarrow> dat_reachable (snd (dat_delete t key))"

section \<open>hash\_tables.py: HashTableOpenAddressing\<close>

text \<open>
  A position of \<open>table\<close> holds \<open>None\<close>, the sentinel \<open>DELETED\<close> or a tuple
  \<open>(key, value)\<close>.
\<close>

datatype 'v slot = Empty | Deleted | Occupied int 'v

text \<open>
  The fields of the object.  \<open>size\<close> is a non-negative Python integer; \<open>count\<close> is
  kept an integer, so that \<open>count -= 1\<close> never truncates.  \<open>hash_func\<close> is any callable
  of a key and a size that returns an integer or raises.  The threshold is a Python
  float; it is modelled by the rational number it denotes, and \<open>count / size\<close> by the
  exact quotient.
\<close>

record 'v HashTableOpenAddressing =
  oa_size :: nat
  oa_count :: int
  oa_table :: "'v slot list"
  oa_hash_func :: "int \<Rightarrow> int \<Rightarrow> error + int"
  oa_probe_type :: string
  oa_load_factor_threshold :: rat
  oa_probe_count :: nat
  oa_comparison_count :: nat

text \<open>\<open>__init__\<close>; \<open>hash_func or division_hash\<close> picks the default for \<open>None\<close>.\<close>

definition oa_init ::
  "nat \<Rightarrow> (int \<Rightarrow> int \<Rightarrow> error + int) option \<Rightarrow> string \<Rightarrow> rat \<Rightarrow> 'v HashTableOpenAddressing" where
  "oa_init sz hash_func probe_type load_factor_threshold =
     \<lparr>oa_size = sz, oa_count = 0, oa_table = replicate sz Empty,
      oa_hash_func = (case hash_func of None \<Rightarrow> division_hash | Some f \<Rightarrow> f),
      oa_probe_type = probe_type,
      oa_load_factor_threshold = load_factor_threshold,
      oa_probe_count = 0, oa_comparison_count = 0\<rparr>"

definition oa_load_factor :: "'v HashTableOpenAddressing \<Rightarrow> error + rat" where
  "oa_load_factor s =
     (if oa_size s = 0 then Inl ZeroDivisionError
      else Inr (of_int (oa_count s) / of_nat (oa_size s)))"

definition oa_linear_probe :: "'v HashTableOpenAddressing \<Rightarrow> int \<Rightarrow> nat \<Rightarrow> error + int" where
  "oa_linear_probe s key i =
     (case oa_hash_func s key (int (oa_size s)) of
        Inl e \<Rightarrow> Inl e
      | Inr h1 \<Rightarrow> py_mod (h1 + int i) (int (oa_size s)))"

definition oa_quadratic_probe :: "'v HashTableOpenAddressing \<Rightarrow> int \<Rightarrow> nat \<Rightarrow> error + int" where
  "oa_quadratic_probe s key i =
     (case oa_hash_func s key (int (oa_size s)) of
        Inl e \<Rightarrow> Inl e
      | Inr h1 \<Rightarrow> py_mod (h1 + 1 * int i + 1 * int i * int i) (int (oa_size s)))"

definition oa_double_hash :: "'v HashTableOpenAddressing \<Rightarrow> int \<Rightarrow> nat \<Rightarrow> error + int" where
  "oa_double_hash s key i =
     (case oa_hash_func s key (int (oa_size s)) of
        Inl e \<Rightarrow> Inl e
      | Inr h1 \<Rightarrow>
          (case py_mod key (int (oa_size s) - 1) of
             Inl e \<Rightarrow> Inl e
           | Inr r \<Rightarrow> py_mod (h1 + int i * (1 + r)) (int (oa_size s))))"

definition oa_probe :: "'v HashTableOpenAddressing \<Rightarrow> int \<Rightarrow> nat \<Rightarrow> error + int" where
  "oa_probe s key i =
     (if oa_probe_type s = ''linear'' then oa_linear_probe s key i
      else if oa_probe_type s = ''quadratic'' then oa_quadratic_probe s key i
      else if oa_probe_type s = ''double'' then oa_double_hash s key i
      else Inl ValueError)"

text \<open>
  The \<open>while i < self.size\<close> loop of \<open>insert\<close>, from iteration \<open>i\<close> on.  The probe
  counter is bumped after \<open>_probe\<close> returned and before the subscript.
\<close>

function oa_insert_loop ::
  "'v HashTableOpenAddressing \<Rightarrow> int \<Rightarrow> 'v \<Rightarrow> nat \<Rightarrow> (error + unit) \<times> 'v HashTableOpenAddressing" where
  "oa_insert_loop s key value i =
     (if i < oa_size s then
        (case oa_probe s key i of
           Inl e \<Rightarrow> (Inl e, s)
         | Inr index \<Rightarrow>
             (let s1 = s\<lparr>oa_probe_count := oa_probe_count s + 1\<rparr> in
              case py_index index (length (oa_table s1)) of
                Inl e \<Rightarrow> (Inl e, s1)
              | Inr j \<Rightarrow>
                  (case oa_table s1 ! j of
                     Empty \<Rightarrow>
                       (Inr (),
                        s1\<lparr>oa_table := (oa_table s1)[j := Occupied key value],
                           oa_count := oa_count s1 + 1\<rparr>)
                   | Deleted \<Rightarrow>
                       (Inr (),
                        s1\<lparr>oa_table := (oa_table s1)[j := Occupied key value],
                           oa_count := oa_count s1 + 1\<rparr>)
                   | Occupied k v \<Rightarrow>
                       if k = key
                       then (Inr (),
                             s1\<lparr>oa_comparison_count := oa_comparison_count s1 + 1,
                                oa_table := (oa_table s1)[j := Occupied key value]\<rparr>)
                       else oa_insert_loop
                              (s1\<lparr>oa_comparison_count := oa_comparison_count s1 + 1\<rparr>)
                              key value (i + 1))))
      else (Inl RuntimeError, s))"
  by pat_completeness auto
termination
  by (relation "measure (\<lambda>(s, key, value, i). oa_size s - i)") auto

declare oa_insert_loop.simps [simp del]

text \<open>
  \<open>insert\<close> and \<open>_resize\<close> call each other: \<open>insert\<close> resizes when the load factor
  has reached the threshold, and \<open>_resize\<close> re-inserts every live entry of the old
  table, by \<open>insert\<close>, into the doubled one (\<open>oa_rehash\<close> is its \<open>for\<close> loop).  An
  exception raised while rehashing leaves \<open>_resize\<close> and the outer \<open>insert\<close> at once,
  with the table as it then is.  The calls nest, since a re-insert may resize again;
  they end because a nested resize only ever sees the entries re-inserted so far.
\<close>

fun is_live :: "'v slot \<Rightarrow> bool" where
  "is_live (Occupied k v) = True"
| "is_live _ = False"

definition oa_live :: "'v HashTableOpenAddressing \<Rightarrow> nat" where
  "oa_live s = length (filter is_live (oa_table s))"

function oa_insert ::
  "'v HashTableOpenAddressing \<Rightarrow> int \<Rightarrow> 'v \<Rightarrow> (error + unit) \<times> 'v HashTableOpenAddressing"
and oa_resize ::
  "'v HashTableOpenAddressing \<Rightarrow> (error + unit) \<times> 'v HashTableOpenAddressing"
and oa_rehash ::
  "'v HashTableOpenAddressing \<Rightarrow> 'v slot list \<Rightarrow> (error + unit) \<times> 'v HashTableOpenAddressing"
where
  "oa_insert s key value =
     (case oa_load_factor s of
        Inl e \<Rightarrow> (Inl e, s)
      | Inr lf \<Rightarrow>
          (case (if lf \<ge> oa_load_factor_threshold s then oa_resize s else (Inr (), s)) of
             (Inl e, s1) \<Rightarrow> (Inl e, s1)
           | (Inr u, s1) \<Rightarrow> oa_insert_loop s1 key value 0))"
| "oa_resize s =
     oa_rehash
       (s\<lparr>oa_size := oa_size s * 2, oa_count := 0,
          oa_table := replicate (oa_size s * 2) Empty\<rparr>)
       (oa_table s)"
| "oa_rehash s [] = (Inr (), s)"
| "oa_rehash s (entry # rest) =
     (case entry of
        Occupied key value \<Rightarrow>
          (case oa_insert s key value of
             (Inl e, s1) \<Rightarrow> (Inl e, s1)
           | (Inr u, s1) \<Rightarrow> oa_rehash s1 rest)
      | _ \<Rightarrow> oa_rehash s rest)"
  by pat_completeness auto

lemma filter_update_le:
  "length (filter P (xs[j := x])) \<le> Suc (length (filter P xs))"
proof (induction xs arbitrary: j)
  case Nil
  show ?case by simp
next
  case (Cons a xs)
  show ?case
  proof (cases j)
    case 0
    then show ?thesis by simp
  next
    case (Suc n)
    with Cons.IH [of n] show ?thesis by auto
  qed
qed

lemma oa_insert_loop_live:
  "oa_live (snd (oa_insert_loop s key value i)) \<le> Suc (oa_live s)"
proof (induction s key "value" i rule: oa_insert_loop.induct)
  case (1 s key "value" i)
  show ?case
    apply (subst oa_insert_loop.simps)
    using "1.IH" filter_update_le [of is_live "oa_table s"]
    apply (auto simp: oa_live_def Let_def split: sum.splits slot.splits)
    done
qed

lemma oa_insert_resize_rehash_live:
  "oa_insert_oa_resize_oa_rehash_dom (Inl (s :: 'v HashTableOpenAddressing, key, value)) \<Longrightarrow>
     oa_live (snd (oa_insert s key value)) \<le> Suc (oa_live s)"
  "oa_insert_oa_resize_oa_rehash_dom (Inr (Inl (s' :: 'v HashTableOpenAddressing))) \<Longrightarrow>
     oa_live (snd (oa_resize s')) \<le> oa_live s'"
  "oa_insert_oa_resize_oa_rehash_dom (Inr (Inr (s'' :: 'v HashTableOpenAddressing, entries))) \<Longrightarrow>
     oa_live (snd (oa_rehash s'' entries)) \<le> oa_live s'' + length (filter is_live entries)"
proof (induction s key "value" and s' and s'' entries rule: oa_insert_oa_resize_oa_rehash.pinduct)
  case (1 s key "value")
  show ?case
  proof (cases "oa_load_factor s")
    case (Inl e)
    with 1 show ?thesis by (simp add: oa_insert.psimps)
  next
    case (Inr lf)
    show ?thesis
    proof (cases "oa_load_factor_threshold s \<le> lf")
      case True
      from 1 Inr True have le: "oa_live (snd (oa_resize s)) \<le> oa_live s" by simp
      obtain r s1 where rs: "oa_resize s = (r, s1)" by (cases "oa_resize s")
      show ?thesis
        using 1(1) Inr True rs le oa_insert_loop_live [of s1 key "value" 0]
        by (auto simp: oa_insert.psimps split: sum.splits)
    next
      case False
      with 1(1) Inr oa_insert_loop_live [of s key "value" 0] show ?thesis
        by (simp add: oa_insert.psimps)
    qed
  qed
next
  case (2 s)
  then show ?case by (simp add: oa_resize.psimps oa_live_def)
next
  case (3 s)
  then show ?case by (simp add: oa_rehash.psimps)
next
  case (4 s entry rest)
  show ?case
  proof (cases entry)
    case Empty
    with 4 show ?thesis by (simp add: oa_rehash.psimps)
  next
    case Deleted
    with 4 show ?thesis by (simp add: oa_rehash.psimps)
  next
    case (Occupied k v)
    obtain r s1 where rs: "oa_insert s k v = (r, s1)" by (cases "oa_insert s k v")
    from 4(4) [OF Occupied] rs have a: "oa_live s1 \<le> Suc (oa_live s)" by simp
    show ?thesis
    proof (cases r)
      case (Inl e)
      with 4(1) Occupied rs a show ?thesis by (simp add: oa_rehash.psimps)
    next
      case (Inr u)
      from 4(5) [OF Occupied rs [symmetric] Inr]
      have "oa_live (snd (oa_rehash s1 rest)) \<le> oa_live s1 + length (filter is_live rest)" .
      with 4(1) Occupied rs a Inr show ?thesis by (simp add: oa_rehash.psimps)
    qed
  qed
qed

termination oa_insert
  apply (relation "inv_image (less_than <*lex*> less_than)
      (\<lambda>x. case x of
         Inl (s, key, value) \<Rightarrow> (3 * oa_live s + 2, 0)
       | Inr (Inl s) \<Rightarrow> (3 * oa_live s + 1, 0)
       | Inr (Inr (s, entries)) \<Rightarrow>
           (3 * (oa_live s + length (filter is_live entries)), length entries))")
  subgoal by (intro wf_inv_image wf_lex_prod wf_less_than)
  subgoal by simp
  subgoal by (simp add: oa_live_def)
  subgoal by simp
  subgoal by simp
  subgoal by simp
  subgoal for s entry rest k v r s1 u
    using oa_insert_resize_rehash_live(1) [of s k v]
    by (auto dest!: sym [of "(Inr (), s1)"])
  done

declare oa_insert.simps [simp del] oa_resize.simps [simp del]

text \<open>The loop of \<open>search\<close>.\<close>

function oa_search_loop ::
  "'v HashTableOpenAddressing \<Rightarrow> int \<Rightarrow> nat \<Rightarrow> (error + 'v option) \<times> 'v HashTableOpenAddressing" where
  "oa_search_loop s key i =
     (if i < oa_size s then
        (case oa_probe s key i of
           Inl e \<Rightarrow> (Inl e, s)
         | Inr index \<Rightarrow>
             (let s1 = s\<lparr>oa_probe_count := oa_probe_count s + 1\<rparr> in
              case py_index index (length (oa_table s1)) of
                Inl e \<Rightarrow> (Inl e, s1)
              | Inr j \<Rightarrow>
                  (case oa_table s1 ! j of
                     Empty \<Rightarrow> (Inr None, s1)
                   | Occupied k v \<Rightarrow>
                       if k = key
                       then (Inr (Some v),
                             s1\<lparr>oa_comparison_count := oa_comparison_count s1 + 1\<rparr>)
                       else oa_search_loop
                              (s1\<lparr>oa_comparison_count := oa_comparison_count s1 + 1\<rparr>)
                              key (i + 1)
                   | Deleted \<Rightarrow>
                       oa_search_loop
                         (s1\<lparr>oa_comparison_count := oa_comparison_count s1 + 1\<rparr>)
                         key (i + 1))))
      else (Inr None, s))"
  by pat_completeness auto
termination
  by (relation "measure (\<lambda>(s, key, i). oa_size s - i)") auto

declare oa_search_loop.simps [simp del]

definition oa_search ::
  "'v HashTableOpenAddressing \<Rightarrow> int \<Rightarrow> (error + 'v option) \<times> 'v HashTableOpenAddressing" where
  "oa_search s key = oa_search_loop s key 0"

text \<open>The loop of \<open>delete\<close>: it touches neither counter.\<close>

function oa_delete_loop ::
  "'v HashTableOpenAddressing \<Rightarrow> int \<Rightarrow> nat \<Rightarrow> (error + bool) \<times> 'v HashTableOpenAddressing" where
  "oa_delete_loop s key i =
     (if i < oa_size s then
        (case oa_probe s key i of
           Inl e \<Rightarrow> (Inl e, s)
         | Inr index \<Rightarrow>
             (case py_index index (length (oa_table s)) of
                Inl e \<Rightarrow> (Inl e, s)
              | Inr j \<Rightarrow>
                  (case oa_table s ! j of
                     Empty \<Rightarrow> (Inr False, s)
                   | Occupied k v \<Rightarrow>
                       if k = key
                       then (Inr True,
                             s\<lparr>oa_table := (oa_table s)[j := Deleted],
                               oa_count := oa_count s - 1\<rparr>)
                       else oa_delete_loop s key (i + 1)
                   | Deleted \<Rightarrow> oa_delete_loop s key (i + 1))))
      else (Inr False, s))"
  by pat_completeness auto
termination
  by (relation "measure (\<lambda>(s, key, i). oa_size s - i)") auto

declare oa_delete_loop.simps [simp del]

definition oa_delete ::
  "'v HashTableOpenAddressing \<Rightarrow> int \<Rightarrow> (error + bool) \<times> 'v HashTableOpenAddressing" where
  "oa_delete s key = oa_delete_loop s key 0"

definition oa_reset_counts :: "'v HashTableOpenAddressing \<Rightarrow> 'v HashTableOpenAddressing" where
  "oa_reset_counts s = s\<lparr>oa_probe_count := 0, oa_comparison_count := 0\<rparr>"

definition oa_get_probe_count :: "'v HashTableOpenAddressing \<Rightarrow> nat" where
  "oa_get_probe_count s = oa_probe_count s"

definition oa_get_comparison_count :: "'v HashTableOpenAddressing \<Rightarrow> nat" where
  "oa_get_comparison_count s = oa_comparison_count s"

section \<open>hash\_tables.py: HashTableSeparateChaining\<close>

text \<open>
  A bucket holds the head of a singly linked chain of \<open>Node\<close> objects.  No node is
  ever shared between two chains or two tables (\<open>insert\<close> allocates a fresh node,
  \<open>_resize\<close> only reads the old ones), so a chain is modelled by the list of its
  \<open>(key, value)\<close> pairs from the head on.
\<close>

record 'v HashTableSeparateChaining =
  sc_size :: nat
  sc_count :: int
  sc_buckets :: "(int \<times> 'v) list list"
  sc_hash_func :: "int \<Rightarrow> int \<Rightarrow> error + int"
  sc_load_factor_threshold :: rat
  sc_comparison_count :: nat


definition sc_load_factor :: "'v HashTableSeparateChaining \<Rightarrow> error + rat" where
  "sc_load_factor s =
     (if sc_size s = 0 then Inl ZeroDivisionError
      else Inr (of_int (sc_count s) / of_nat (sc_size s)))"

text \<open>
  The \<open>while current is not None\<close> loop of \<open>insert\<close> over one chain: the chain with
  the value of \<open>key\<close> replaced if a node holds \<open>key\<close>, and the number of nodes visited
  (each visit adds one to the comparison counter).
\<close>

fun sc_insert_walk :: "(int \<times> 'v) list \<Rightarrow> int \<Rightarrow> 'v \<Rightarrow> (int \<times> 'v) list option \<times> nat" where
  "sc_insert_walk [] key value = (None, 0)"
| "sc_insert_walk ((k, v) # rest) key value =
     (if k = key then (Some ((k, value) # rest), 1)
      else (case sc_insert_walk rest key value of
              (None, c) \<Rightarrow> (None, c + 1)
            | (Some rest', c) \<Rightarrow> (Some ((k, v) # rest'), c + 1)))"

text \<open>\<open>insert\<close> after the load-factor check.\<close>

definition sc_insert_body ::
  "'v HashTableSeparateChaining \<Rightarrow> int \<Rightarrow> 'v \<Rightarrow> (error + unit) \<times> 'v HashTableSeparateChaining" where
  "sc_insert_body s key value =
     (case sc_hash_func s key (int (sc_size s)) of
        Inl e \<Rightarrow> (Inl e, s)
      | Inr index \<Rightarrow>
          (case py_index index (length (sc_buckets s)) of
             Inl e \<Rightarrow> (Inl e, s)
           | Inr j \<Rightarrow>
               (case sc_insert_walk (sc_buckets s ! j) key value of
                  (Some nodes, c) \<Rightarrow>
                    (Inr (),
                     s\<lparr>sc_comparison_count := sc_comparison_count s + c,
                       sc_buckets := (sc_buckets s)[j := nodes]\<rparr>)
                | (None, c) \<Rightarrow>
                    (Inr (),
                     s\<lparr>sc_comparison_count := sc_comparison_count s + c,
                       sc_buckets := (sc_buckets s)[j := (key, value) # sc_buckets s ! j],
                       sc_count := sc_count s + 1\<rparr>))))"

text \<open>\<open>get_chain_lengths\<close>: the inner loop counts the nodes of one chain.\<close>

definition sc_get_chain_lengths :: "'v HashTableSeparateChaining \<Rightarrow> nat list" where
  "sc_get_chain_lengths s = map length (sc_buckets s)"

definition sc_nodes :: "'v HashTableSeparateChaining \<Rightarrow> nat" where
  "sc_nodes s = sum_list (sc_get_chain_lengths s)"

text \<open>
  \<open>insert\<close> and \<open>_resize\<close>; \<open>sc_rehash\<close> is the \<open>for head in old_buckets\<close> loop with
  its inner \<open>while\<close>: the first chain of the list is the one being walked.
\<close>

function sc_insert ::
  "'v HashTableSeparateChaining \<Rightarrow> int \<Rightarrow> 'v \<Rightarrow> (error + unit) \<times> 'v HashTableSeparateChaining"
and sc_resize ::
  "'v HashTableSeparateChaining \<Rightarrow> (error + unit) \<times> 'v HashTableSeparateChaining"
and sc_rehash ::
  "'v HashTableSeparateChaining \<Rightarrow> (int \<times> 'v) list list \<Rightarrow>
     (error + unit) \<times> 'v HashTableSeparateChaining"
where
  "sc_insert s key value =
     (case sc_load_factor s of
        Inl e \<Rightarrow> (Inl e, s)
      | Inr lf \<Rightarrow>
          (case (if lf \<ge> sc_load_factor_threshold s then sc_resize s else (Inr (), s)) of
             (Inl e, s1) \<Rightarrow> (Inl e, s1)
           | (Inr u, s1) \<Rightarrow> sc_insert_body s1 key value))"
| "sc_resize s =
     sc_rehash
       (s\<lparr>sc_size := sc_size s * 2, sc_count := 0,
          sc_buckets := replicate (sc_size s * 2) []\<rparr>)
       (sc_buckets s)"
| "sc_rehash s [] = (Inr (), s)"
| "sc_rehash s ([] # heads) = sc_rehash s heads"
| "sc_rehash s (((key, value) # rest) # heads) =
     (case sc_insert s key value of
        (Inl e, s1) \<Rightarrow> (Inl e, s1)
      | (Inr u, s1) \<Rightarrow> sc_rehash s1 (rest # heads))"
  by pat_completeness auto

lemma sc_insert_walk_length:
  "sc_insert_walk nodes key v = (Some nodes', c) \<Longrightarrow> length nodes' = length nodes"
  by (induction nodes key v arbitrary: nodes' c rule: sc_insert_walk.induct)
     (auto split: if_splits prod.splits option.splits)

lemma py_index_less: "py_index i n = Inr j \<Longrightarrow> j < n"
  by (auto simp: py_index_def Let_def split: if_splits)

lemma sc_insert_body_nodes:
  "sc_nodes (snd (sc_insert_body s key v)) \<le> Suc (sc_nodes s)"
proof -
  have "sc_nodes s' \<le> Suc (sc_nodes s)" if "sc_insert_body s key v = (r, s')" for r s'
    using that
    by (auto simp: sc_insert_body_def sc_nodes_def sc_get_chain_lengths_def map_update
        sum_list_update
        split: sum.splits prod.splits option.splits
        dest!: py_index_less sc_insert_walk_length)
  then show ?thesis by (cases "sc_insert_body s key v") auto
qed

lemma sc_insert_resize_rehash_nodes:
  "sc_insert_sc_resize_sc_rehash_dom (Inl (s :: 'v HashTableSeparateChaining, key, v)) \<Longrightarrow>
     sc_nodes (snd (sc_insert s key v)) \<le> Suc (sc_nodes s)"
  "sc_insert_sc_resize_sc_rehash_dom (Inr (Inl (s' :: 'v HashTableSeparateChaining))) \<Longrightarrow>
     sc_nodes (snd (sc_resize s')) \<le> sc_nodes s'"
  "sc_insert_sc_resize_sc_rehash_dom (Inr (Inr (s'' :: 'v HashTableSeparateChaining, heads))) \<Longrightarrow>
     sc_nodes (snd (sc_rehash s'' heads)) \<le> sc_nodes s'' + sum_list (map length heads)"
proof (induction s key v and s' and s'' heads rule: sc_insert_sc_resize_sc_rehash.pinduct)
  case (1 s key v)
  show ?case
  proof (cases "sc_load_factor s")
    case (Inl e)
    with 1 show ?thesis by (simp add: sc_insert.psimps)
  next
    case (Inr lf)
    show ?thesis
    proof (cases "sc_load_factor_threshold s \<le> lf")
      case True
      from 1 Inr True have le: "sc_nodes (snd (sc_resize s)) \<le> sc_nodes s" by simp
      obtain r s1 where rs: "sc_resize s = (r, s1)" by (cases "sc_resize s")
      show ?thesis
        using 1(1) Inr True rs le sc_insert_body_nodes [of s1 key v]
        by (auto simp: sc_insert.psimps split: sum.splits)
    next
      case False
      with 1(1) Inr sc_insert_body_nodes [of s key v] show ?thesis
        by (simp add: sc_insert.psimps)
    qed
  qed
next
  case (2 s)
  then show ?case
    by (simp add: sc_resize.psimps sc_nodes_def sc_get_chain_lengths_def sum_list_replicate)
next
  case (3 s)
  then show ?case by (simp add: sc_rehash.psimps)
next
  case (4 s heads)
  then show ?case by (simp add: sc_rehash.psimps)
next
  case (5 s key v rest heads)
  obtain r s1 where rs: "sc_insert s key v = (r, s1)" by (cases "sc_insert s key v")
  from 5(2) rs have a: "sc_nodes s1 \<le> Suc (sc_nodes s)" by simp
  show ?case
  proof (cases r)
    case (Inl e)
    with 5(1) rs a show ?thesis by (simp add: sc_rehash.psimps)
  next
    case (Inr u)
    from 5(3) [OF rs [symmetric] Inr]
    have "sc_nodes (snd (sc_rehash s1 (rest # heads)))
            \<le> sc_nodes s1 + sum_list (map length (rest # heads))" .
    with 5(1) rs a Inr show ?thesis by (simp add: sc_rehash.psimps)
  qed
qed

termination sc_insert
  apply (relation "inv_image (less_than <*lex*> less_than)
      (\<lambda>x. case x of
         Inl (s, key, value) \<Rightarrow> (3 * sc_nodes s + 2, 0)
       | Inr (Inl s) \<Rightarrow> (3 * sc_nodes s + 1, 0)
       | Inr (Inr (s, heads)) \<Rightarrow>
           (3 * (sc_nodes s + sum_list (map length heads)),
            sum_list (map length heads) + length heads))")
  subgoal by (intro wf_inv_image wf_lex_prod wf_less_than)
  subgoal by simp
  subgoal by (simp add: sc_nodes_def sc_get_chain_lengths_def sum_list_replicate)
  subgoal by simp
  subgoal by simp
  subgoal for s key v rest heads r s1 u
    using sc_insert_resize_rehash_nodes(1) [of s key v]
    by (auto dest!: sym [of "(Inr (), s1)"])
  done

declare sc_insert.simps [simp del] sc_resize.simps [simp del]



text \<open>
  The loop of \<open>delete\<close> behind the head, with its trailing pointer: the rest of the
  chain with the first node holding \<open>key\<close> unlinked, if there is one.
\<close>

fun sc_delete_walk :: "(int \<times> 'v) list \<Rightarrow> int \<Rightarrow> (int \<times> 'v) list option" where
  "sc_delete_walk [] key = None"
| "sc_delete_walk ((k, v) # rest) key =
     (if k = key then Some rest
      else (case sc_delete_walk rest key of
              None \<Rightarrow> None
            | Some rest' \<Rightarrow> Some ((k, v) # rest')))"

definition sc_delete ::
  "'v HashTableSeparateChaining \<Rightarrow> int \<Rightarrow> (error + bool) \<times> 'v HashTableSeparateChaining" where
  "sc_delete s key =
     (case sc_hash_func s key (int (sc_size s)) of
        Inl e \<Rightarrow> (Inl e, s)
      | Inr index \<Rightarrow>
          (case py_index index (length (sc_buckets s)) of
             Inl e \<Rightarrow> (Inl e, s)
           | Inr j \<Rightarrow>
               (case sc_buckets s ! j of
                  [] \<Rightarrow> (Inr False, s)
                | (k, v) # rest \<Rightarrow>
                    if k = key
                    then (Inr True,
                          s\<lparr>sc_buckets := (sc_buckets s)[j := rest],
                            sc_count := sc_count s - 1\<rparr>)
                    else (case sc_delete_walk rest key of
                            None \<Rightarrow> (Inr False, s)
                          | Some rest' \<Rightarrow>
                              (Inr True,
                               s\<lparr>sc_buckets := (sc_buckets s)[j := (k, v) # rest'],
                                 sc_count := sc_count s - 1\<rparr>)))))"


definition sc_get_comparison_count :: "'v HashTableSeparateChaining \<Rightarrow> nat" where
  "sc_get_comparison_count s = sc_comparison_count s"

section \<open>Reachable tables\<close>

text \<open>
  The objects a caller can hold: made by the constructor and changed only through the
  public methods.  A call that raises still leaves an object behind, so the state
  after a raise is reachable as well.
\<close>

inductive oa_reachable :: "'v HashTableOpenAddressing \<Rightarrow> bool" where
  oa_reach_init: "oa_reachable (oa_init sz hash_func probe_type load_factor_threshold)"
| oa_reach_insert: "oa_reachable s \<Longrightarrow> oa_reachable (snd (oa_insert s key value))"
| oa_reach_search: "oa_reachable s \<Longrightarrow> oa_reachable (snd (oa_search s key))"
| oa_reach_delete: "oa_reachable s \<Longrightarrow> oa_reachable (snd (oa_delete s key))"
| oa_reach_reset: "oa_reachable s \<Longrightarrow> oa_reachable (oa_reset_counts s)"


section \<open>Client programs\<close>


fun oa_insert_all ::
  "'v HashTableOpenAddressing \<Rightarrow> (int \<times> 'v) list \<Rightarrow> (error + unit) \<times> 'v HashTableOpenAddressing" where
  "oa_insert_all s [] = (Inr (), s)"
| "oa_insert_all s ((key, value) # rest) =
     (case oa_insert s key value of
        (Inl e, s1) \<Rightarrow> (Inl e, s1)
      | (Inr u, s1) \<Rightarrow> oa_insert_all s1 rest)"


text \<open>
  The runs the theorems below evaluate.  \<open>oa_ex0\<close> is
  \<open>HashTableOpenAddressing(10, probe_type='linear')\<close> with the default threshold 0.75;
  \<open>oa_ex1\<close> is that table after \<open>insert(10, 'a')\<close> and \<open>insert(20, 'b')\<close> (both keys hash
  to 0), \<open>oa_ex2\<close> after \<open>delete(10)\<close>, \<open>oa_ex3\<close> after \<open>insert(20, 'c')\<close> and \<open>oa_ex4\<close>
  after \<open>delete(20)\<close>.  \<open>oa_ex8\<close> holds the first eight keys of the scenario of the
  specification; \<open>sc_ex10\<close> is \<open>HashTableSeparateChaining(5)\<close> after the keys 0..9.
\<close>

definition oa_ex0 :: "string HashTableOpenAddressing" where
  "oa_ex0 = oa_init 10 None ''linear'' (3 / 4)"

definition oa_ex1 :: "string HashTableOpenAddressing" where
  "oa_ex1 = snd (oa_insert (snd (oa_insert oa_ex0 10 ''a'')) 20 ''b'')"

definition oa_ex2 :: "string HashTableOpenAddressing" where
  "oa_ex2 = snd (oa_delete oa_ex1 10)"

definition oa_ex3 :: "string HashTableOpenAddressing" where
  "oa_ex3 = snd (oa_insert oa_ex2 20 ''c'')"

definition oa_ex4 :: "string HashTableOpenAddressing" where
  "oa_ex4 = snd (oa_delete oa_ex3 20)"





text \<open>
  \<open>HashTableOpenAddressing(10, probe_type='double')\<close> after eight inserts.  In a table
  of size 20 the keys 9, 199 and 389 all probe the two positions 9 and 19 only.
\<close>

definition oa_dh8 :: "string HashTableOpenAddressing" where
  "oa_dh8 = snd (oa_insert_all (oa_init 10 None ''double'' (3 / 4))
     [(9, ''a''), (199, ''b''), (389, ''c''), (0, ''d''),
      (3, ''e''), (4, ''f''), (5, ''g''), (6, ''h'')])"

section \<open>Invariants\<close>










section \<open>The hash function library\<close>

text \<open>
  C9.  For every integer key, negative ones included, and every table size \<open>m > 0\<close>,
  \<open>division_hash\<close> returns (it does not raise) an index in \<open>[0, m)\<close>, the floor-mod
  of the key.
\<close>

theorem division_hash_in_range:
  "0 < m \<Longrightarrow> \<exists>h. division_hash k m = Inr h \<and> 0 \<le> h \<and> h < m \<and> (\<exists>q. k = q * m + h)"
proof -
  assume m: "0 < m"
  have "k = (k div m) * m + k mod m" by simp
  then have "\<exists>q. k = q * m + k mod m" ..
  with m show ?thesis
    by (simp add: division_hash_def py_mod_def)
qed

theorem division_hash_in_range_witness:
  "(0::int) < 3 \<and> division_hash (- 7) 3 = Inr 2
   \<and> (\<exists>h. division_hash (- 7) 3 = Inr h \<and> 0 \<le> h \<and> h < 3 \<and> (\<exists>q. - 7 = q * 3 + h))"
  using division_hash_in_range [of 3 "- 7"]
  by (simp add: division_hash_def py_mod_def)

text \<open>
  C10.  The registry of \<open>get_hash_function\<close> holds exactly the seven names
  'division', 'multiplication', 'string\_simple', 'string\_polynomial', 'string\_djb2',
  'md5' and 'bad\_clustering'.  'universal' is not among them, so
  \<open>get_hash_function('universal')\<close> is \<open>division_hash\<close> and not \<open>universal_hash\<close>, as
  for every name outside the registry.
\<close>

theorem get_hash_function_universal:
  "get_hash_function ''universal'' = DivisionHash
   \<and> get_hash_function ''universal'' \<noteq> UniversalHash
   \<and> map fst hash_functions =
       [''division'', ''multiplication'', ''string_simple'', ''string_polynomial'',
        ''string_djb2'', ''md5'', ''bad_clustering'']
   \<and> UniversalHash \<notin> snd ` set hash_functions
   \<and> (\<forall>name. name \<notin> fst ` set hash_functions \<longrightarrow> get_hash_function name = DivisionHash)"
proof -
  have "get_hash_function name = DivisionHash" if "name \<notin> fst ` set hash_functions" for name
  proof -
    from that have "map_of hash_functions name = None"
      by (simp add: map_of_eq_None_iff)
    then show ?thesis by (simp add: get_hash_function_def)
  qed
  moreover have "get_hash_function ''universal'' = DivisionHash"
    by (simp add: get_hash_function_def hash_functions_def)
  ultimately show ?thesis
    by (simp add: hash_functions_def)
qed

theorem get_hash_function_universal_witness:
  "''sha256'' \<notin> fst ` set hash_functions \<and> get_hash_function ''sha256'' = DivisionHash
   \<and> get_hash_function ''universal'' = DivisionHash"
proof -
  have a: "''sha256'' \<notin> fst ` set hash_functions"
    by (simp add: hash_functions_def)
  with get_hash_function_universal show ?thesis by blast
qed

section \<open>The direct-address table\<close>

lemma dat_reachable_length:
  "dat_reachable t \<Longrightarrow> length (dat_table t) = nat (dat_size t)"
  by (induction rule: dat_reachable.induct)
     (auto simp: dat_init_def dat_insert_def dat_search_def dat_delete_def split: sum.splits)

text \<open>
  C8.  On a table of size \<open>m\<close>: \<open>insert\<close> with a key outside \<open>[0, m)\<close> raises
  ValueError and leaves the table as it was; \<open>search\<close> with such a key returns
  \<open>None\<close> and \<open>delete\<close> returns without a change, neither raising.  \<open>insert\<close> with a
  key in \<open>[0, m)\<close> returns normally and stores the value at position \<open>key\<close>, changing
  no other position.
\<close>

theorem dat_key_range:
  "dat_reachable t \<Longrightarrow>
   (\<not> (0 \<le> key \<and> key < dat_size t) \<longrightarrow>
      dat_insert t key value = (Inl ValueError, t)
      \<and> dat_search t key = (Inr None, t)
      \<and> dat_delete t key = (Inr (), t))
   \<and> (0 \<le> key \<and> key < dat_size t \<longrightarrow>
      dat_insert t key value = (Inr (), t\<lparr>dat_table := (dat_table t)[nat key := value]\<rparr>)
      \<and> dat_table (snd (dat_insert t key value)) ! nat key = value
      \<and> fst (dat_search (snd (dat_insert t key value)) key) = Inr value)"
proof -
  assume "dat_reachable t"
  then have len: "length (dat_table t) = nat (dat_size t)"
    by (rule dat_reachable_length)
  show ?thesis
    using len
    by (auto simp: dat_insert_def dat_search_def dat_delete_def py_index_def Let_def)
qed

theorem dat_key_range_witness:
  "dat_reachable (dat_init 100 :: string DirectAddressTable)
   \<and> dat_insert (dat_init 100) 100 (Some ''x'') = (Inl ValueError, dat_init 100)
   \<and> dat_search (dat_init 100 :: string DirectAddressTable) 100 = (Inr None, dat_init 100)
   \<and> dat_delete (dat_init 100 :: string DirectAddressTable) (- 1) = (Inr (), dat_init 100)
   \<and> fst (dat_search (snd (dat_insert (dat_init 100) 5 (Some ''Alice''))) 5) = Inr (Some ''Alice'')"
proof -
  have r: "dat_reachable (dat_init 100 :: string DirectAddressTable)"
    by (rule dat_reach_init)
  have s: "dat_size (dat_init 100 :: string DirectAddressTable) = 100"
    by (simp add: dat_init_def)
  have a: "dat_insert (dat_init 100) 100 (Some ''x'') = (Inl ValueError, dat_init 100)"
    and b: "dat_search (dat_init 100 :: string DirectAddressTable) 100 = (Inr None, dat_init 100)"
    using dat_key_range [OF r, of 100 "Some ''x''"] s by simp_all
  have c: "dat_delete (dat_init 100 :: string DirectAddressTable) (- 1) = (Inr (), dat_init 100)"
    using dat_key_range [OF r, of "- 1" None] s by simp
  have d: "fst (dat_search (snd (dat_insert (dat_init 100) 5 (Some ''Alice''))) 5)
             = Inr (Some ''Alice'')"
  proof -
    have "0 \<le> (5::int) \<and> 5 < dat_size (dat_init 100 :: string DirectAddressTable)"
      using s by simp
    with dat_key_range [OF r, of 5 "Some ''Alice''"] show ?thesis by blast
  qed
  from r a b c d show ?thesis by blast
qed

section \<open>The separate-chaining table\<close>
















section \<open>The open-addressing table\<close>


lemma oa_ex_reachable:
  "oa_reachable oa_ex1" "oa_reachable oa_ex2" "oa_reachable oa_ex3" "oa_reachable oa_ex4"
  unfolding oa_ex4_def oa_ex3_def oa_ex2_def oa_ex1_def oa_ex0_def
  by (intro oa_reachable.intros)+


subsection \<open>Re-inserting a key behind a tombstone\<close>

text \<open>
  \<open>insert\<close> takes the first position of the probe sequence that is \<open>None\<close> or
  \<open>DELETED\<close> without looking further for the key.  With keys 10 and 20 in a table of
  size 10 (both hash to 0, so 20 sits at position 1 behind 10), \<open>delete(10)\<close> leaves a
  tombstone at position 0 and \<open>insert(20, 'c')\<close> fills it.
\<close>

text \<open>
  C3 (fails on the code).  Key 20 is present in \<open>oa_ex2\<close> with value 'b' and \<open>count\<close>
  is 1; \<open>insert(20, 'c')\<close> returns normally, but \<open>count\<close> becomes 2 and the entry that
  held key 20 keeps its old value: the key was not updated in place.
\<close>

theorem oa_reinsert_changes_count:
  "oa_reachable oa_ex2
   \<and> fst (oa_search oa_ex2 20) = Inr (Some ''b'')
   \<and> oa_count oa_ex2 = 1
   \<and> fst (oa_insert oa_ex2 20 ''c'') = Inr ()
   \<and> oa_count (snd (oa_insert oa_ex2 20 ''c'')) = 2
   \<and> oa_table (snd (oa_insert oa_ex2 20 ''c'')) ! 1 = Occupied 20 ''b''
   \<and> oa_table (snd (oa_insert oa_ex2 20 ''c'')) ! 0 = Occupied 20 ''c''"
proof -
  have "fst (oa_search oa_ex2 20) = Inr (Some ''b'')" by code_simp
  moreover have "oa_count oa_ex2 = 1" by code_simp
  moreover have "fst (oa_insert oa_ex2 20 ''c'') = Inr ()" by code_simp
  moreover have "oa_count (snd (oa_insert oa_ex2 20 ''c'')) = 2" by code_simp
  moreover have "oa_table (snd (oa_insert oa_ex2 20 ''c'')) ! 1 = Occupied 20 ''b''"
    by code_simp
  moreover have "oa_table (snd (oa_insert oa_ex2 20 ''c'')) ! 0 = Occupied 20 ''c''"
    by code_simp
  ultimately show ?thesis using oa_ex_reachable(2) by simp
qed

text \<open>
  C4 (fails on the code).  After that insert the reachable table \<open>oa_ex3\<close> holds key
  20 at two positions.
\<close>

theorem oa_duplicate_key_after_tombstone:
  "oa_reachable oa_ex3
   \<and> oa_table oa_ex2 =
       [Deleted, Occupied 20 ''b'', Empty, Empty, Empty, Empty, Empty, Empty, Empty, Empty]
   \<and> oa_table oa_ex3 =
       [Occupied 20 ''c'', Occupied 20 ''b'', Empty, Empty, Empty, Empty, Empty, Empty,
        Empty, Empty]"
proof -
  have "oa_table oa_ex2 =
       [Deleted, Occupied 20 ''b'', Empty, Empty, Empty, Empty, Empty, Empty, Empty, Empty]"
    by code_simp
  moreover have "oa_table oa_ex3 =
       [Occupied 20 ''c'', Occupied 20 ''b'', Empty, Empty, Empty, Empty, Empty, Empty,
        Empty, Empty]"
    by code_simp
  ultimately show ?thesis using oa_ex_reachable(3) by simp
qed

text \<open>
  C5 (fails on the code).  On \<open>oa_ex3\<close>, \<open>delete(20)\<close> returns \<open>True\<close>, and the search
  for 20 that follows still finds the stale entry and returns 'b'.
\<close>

theorem oa_search_after_delete_finds_key:
  "oa_reachable oa_ex3
   \<and> fst (oa_delete oa_ex3 20) = Inr True
   \<and> fst (oa_search (snd (oa_delete oa_ex3 20)) 20) = Inr (Some ''b'')"
proof -
  have "fst (oa_delete oa_ex3 20) = Inr True" by code_simp
  moreover have "fst (oa_search (snd (oa_delete oa_ex3 20)) 20) = Inr (Some ''b'')"
    by code_simp
  ultimately show ?thesis using oa_ex_reachable(3) by simp
qed

subsection \<open>The counters\<close>

lemma oa_delete_loop_counters:
  "oa_probe_count (snd (oa_delete_loop s key i)) = oa_probe_count s
   \<and> oa_comparison_count (snd (oa_delete_loop s key i)) = oa_comparison_count s"
proof (induction s key i rule: oa_delete_loop.induct)
  case (1 s key i)
  show ?case
    apply (subst (1 2) oa_delete_loop.simps)
    using "1.IH"
    apply (auto split: sum.splits slot.splits)
    done
qed

lemma oa_delete_counters:
  "oa_probe_count (snd (oa_delete s key)) = oa_probe_count s"
  "oa_comparison_count (snd (oa_delete s key)) = oa_comparison_count s"
  by (simp_all add: oa_delete_def oa_delete_loop_counters)

text \<open>
  C6 (fails on the code).  \<open>delete\<close> probes and compares keys without counting: on
  \<open>oa_ex1\<close>, \<open>delete(20)\<close> finds the key at its second probe, after comparing with the
  entry of key 10, and both counters are what they were (3 probes, 1 comparison), as
  \<open>oa_delete_counters\<close> shows for every table and key.  \<open>search(20)\<close> on the same table
  walks the same two positions and adds 2 to each counter.
\<close>

theorem oa_delete_counts_nothing:
  "oa_reachable oa_ex1
   \<and> oa_table oa_ex1 =
       [Occupied 10 ''a'', Occupied 20 ''b'', Empty, Empty, Empty, Empty, Empty, Empty,
        Empty, Empty]
   \<and> oa_probe_count oa_ex1 = 3 \<and> oa_comparison_count oa_ex1 = 1
   \<and> fst (oa_delete oa_ex1 20) = Inr True
   \<and> oa_probe_count (snd (oa_delete oa_ex1 20)) = 3
   \<and> oa_comparison_count (snd (oa_delete oa_ex1 20)) = 1
   \<and> fst (oa_search oa_ex1 20) = Inr (Some ''b'')
   \<and> oa_probe_count (snd (oa_search oa_ex1 20)) = 5
   \<and> oa_comparison_count (snd (oa_search oa_ex1 20)) = 3"
proof -
  have "oa_table oa_ex1 =
       [Occupied 10 ''a'', Occupied 20 ''b'', Empty, Empty, Empty, Empty, Empty, Empty,
        Empty, Empty]"
    by code_simp
  moreover have "oa_probe_count oa_ex1 = 3" by code_simp
  moreover have "oa_comparison_count oa_ex1 = 1" by code_simp
  moreover have "fst (oa_delete oa_ex1 20) = Inr True" by code_simp
  moreover have "oa_probe_count (snd (oa_delete oa_ex1 20)) = 3" by code_simp
  moreover have "oa_comparison_count (snd (oa_delete oa_ex1 20)) = 1" by code_simp
  moreover have "fst (oa_search oa_ex1 20) = Inr (Some ''b'')" by code_simp
  moreover have "oa_probe_count (snd (oa_search oa_ex1 20)) = 5" by code_simp
  moreover have "oa_comparison_count (snd (oa_search oa_ex1 20)) = 3" by code_simp
  ultimately show ?thesis using oa_ex_reachable(1) by simp
qed

section \<open>What insert keeps\<close>

subsection \<open>Open addressing\<close>
















lemma oa_delete_loop_shape:
  "oa_delete_loop s key i = (r, s') \<Longrightarrow>
   (r \<noteq> Inr True \<and> s' = s)
   \<or> (\<exists>j v0. r = Inr True \<and> j < length (oa_table s) \<and> oa_table s ! j = Occupied key v0
        \<and> s' = s\<lparr>oa_table := (oa_table s)[j := Deleted], oa_count := oa_count s - 1\<rparr>)"
proof (induction s key i arbitrary: r s' rule: oa_delete_loop.induct)
  case (1 s key i)
  show ?case
  proof (cases "i < oa_size s")
    case False
    with "1.prems" show ?thesis by (auto simp: oa_delete_loop.simps [of s key i])
  next
    case True
    show ?thesis
    proof (cases "oa_probe s key i")
      case (Inl e)
      with True "1.prems" show ?thesis by (auto simp: oa_delete_loop.simps [of s key i])
    next
      case (Inr index)
      show ?thesis
      proof (cases "py_index index (length (oa_table s))")
        case (Inl e)
        with True Inr "1.prems" show ?thesis
          by (auto simp: oa_delete_loop.simps [of s key i])
      next
        case j: (Inr j)
        then have jlen: "j < length (oa_table s)" by (rule py_index_less)
        show ?thesis
        proof (cases "oa_table s ! j")
          case Empty
          with True Inr j "1.prems" show ?thesis
            by (auto simp: oa_delete_loop.simps [of s key i])
        next
          case Deleted
          from True Inr j Deleted "1.prems"
          have rec: "oa_delete_loop s key (i + 1) = (r, s')"
            by (simp add: oa_delete_loop.simps [of s key i])
          from "1.IH"(1) [OF True Inr j Deleted rec] show ?thesis .
        next
          case (Occupied k v0)
          show ?thesis
          proof (cases "k = key")
            case eq: True
            with True Inr j Occupied "1.prems" have "r = Inr True"
              "s' = s\<lparr>oa_table := (oa_table s)[j := Deleted], oa_count := oa_count s - 1\<rparr>"
              by (simp_all add: oa_delete_loop.simps [of s key i])
            with jlen Occupied eq show ?thesis by blast
          next
            case ne: False
            from True Inr j Occupied ne "1.prems"
            have rec: "oa_delete_loop s key (i + 1) = (r, s')"
              by (simp add: oa_delete_loop.simps [of s key i])
            from "1.IH"(2) [OF True Inr j Occupied ne rec] show ?thesis .
          qed
        qed
      qed
    qed
  qed
qed



subsection \<open>Separate chaining\<close>
















section \<open>The load factor\<close>




section \<open>Insert, then search\<close>

subsection \<open>Open addressing\<close>





















subsection \<open>Separate chaining\<close>

















subsection \<open>Direct addressing\<close>



subsection \<open>All three tables\<close>



section \<open>Calls that miss or raise\<close>

text \<open>A \<open>delete\<close> that does not return \<open>True\<close> leaves the object as it was.\<close>

lemma oa_delete_miss:
  "fst (oa_delete s key) \<noteq> Inr True \<Longrightarrow> snd (oa_delete s key) = s"
  using oa_delete_loop_shape [of s key 0 "fst (oa_delete s key)" "snd (oa_delete s key)"]
  by (auto simp: oa_delete_def)

lemma sc_delete_miss:
  "fst (sc_delete s key) \<noteq> Inr True \<Longrightarrow> snd (sc_delete s key) = s"
  by (auto simp: sc_delete_def split: sum.splits list.splits option.splits if_splits)

text \<open>
  An \<open>insert\<close> that raises while \<open>_resize\<close> is re-inserting leaves the table half
  rebuilt: on \<open>oa_dh8\<close>, where key 9 is found, \<open>insert(7, 'z')\<close> resizes to 20, cannot
  place key 9 again and raises RuntimeError; key 9 is then missing.  The round trip
  above is therefore about runs in which every call returns.
\<close>

lemma oa_raise_during_resize:
  "oa_size oa_dh8 = 10 \<and> oa_count oa_dh8 = 8
   \<and> fst (oa_search oa_dh8 9) = Inr (Some ''a'')
   \<and> fst (oa_insert oa_dh8 7 ''z'') = Inl RuntimeError
   \<and> oa_size (snd (oa_insert oa_dh8 7 ''z'')) = 20
   \<and> fst (oa_search (snd (oa_insert oa_dh8 7 ''z'')) 9) = Inr None"
proof -
  have "oa_size oa_dh8 = 10" by code_simp
  moreover have "oa_count oa_dh8 = 8" by code_simp
  moreover have "fst (oa_search oa_dh8 9) = Inr (Some ''a'')" by code_simp
  moreover have "fst (oa_insert oa_dh8 7 ''z'') = Inl RuntimeError" by code_simp
  moreover have "oa_size (snd (oa_insert oa_dh8 7 ''z'')) = 20" by code_simp
  moreover have "fst (oa_search (snd (oa_insert oa_dh8 7 ''z'')) 9) = Inr None" by code_simp
  ultimately show ?thesis by simp
qed

end
